theory Spec2Isabelle
  imports Main
begin


section \<open>Strings\<close>

text \<open>
  Python strings are modelled as HOL strings, that is, lists of 8-bit characters: the
  model covers the code points below 256 (Latin-1).  \<open>is_space\<close> is Python's
  \<open>str.isspace\<close> on one character of that range, which is what \<open>str.strip()\<close> without
  argument removes; \<open>is_upper\<close> and \<open>lower_char\<close> are the upper-case letters of the
  range and their images under \<open>str.lower()\<close>.
\<close>

definition is_space :: "char \<Rightarrow> bool" where
  "is_space c = ((of_char c :: nat) \<in> {9, 10, 11, 12, 13, 28, 29, 30, 31, 32, 133, 160})"

definition is_upper :: "char \<Rightarrow> bool" where
  "is_upper c = (let n = (of_char c :: nat) in
     (65 \<le> n \<and> n \<le> 90) \<or> (192 \<le> n \<and> n \<le> 214) \<or> (216 \<le> n \<and> n \<le> 222))"

definition lower_char :: "char \<Rightarrow> char" where
  "lower_char c = (if is_upper c then char_of ((of_char c :: nat) + 32) else c)"

definition lower :: "string \<Rightarrow> string" where
  "lower s = map lower_char s"

definition strip :: "string \<Rightarrow> string" where
  "strip s = rev (dropWhile is_space (rev (dropWhile is_space s)))"

text \<open>A string is trimmed when it neither starts nor ends with a whitespace character.\<close>

definition trimmed :: "string \<Rightarrow> bool" where
  "trimmed s = (s = [] \<or> (\<not> is_space (hd s) \<and> \<not> is_space (last s)))"

definition is_lowercase :: "string \<Rightarrow> bool" where
  "is_lowercase s = (\<forall>c \<in> set s. \<not> is_upper c)"


section \<open>Tables\<close>

text \<open>
  A cell of a pandas frame is a missing value, a string, or a non-string scalar; the
  non-string scalars are modelled as integers.  A frame is its list of column labels
  and its list of rows, each row holding one cell per column, in column order.  Column
  labels are strings.
\<close>

datatype cell = NaN | Str string | Num int

datatype frame = DataFrame (columns: "string list") (rows: "cell list list")

text \<open>\<open>DataFrame.dropna()\<close>: keep the rows without any missing value.\<close>

definition dropna :: "frame \<Rightarrow> frame" where
  "dropna df = DataFrame (columns df) (filter (\<lambda>r. NaN \<notin> set r) (rows df))"

text \<open>
  \<open>DataFrame.drop_duplicates()\<close> keeps the first occurrence of every row, in the
  order of the frame: \<open>first_seen seen xs\<close> walks the rows with the rows met so far.
\<close>

primrec first_seen :: "'a list \<Rightarrow> 'a list \<Rightarrow> 'a list" where
  "first_seen seen [] = []"
| "first_seen seen (x # xs) =
     (if x \<in> set seen then first_seen seen xs else x # first_seen (x # seen) xs)"

definition drop_duplicates :: "frame \<Rightarrow> frame" where
  "drop_duplicates df = DataFrame (columns df) (first_seen [] (rows df))"

text \<open>\<open>df.columns = df.columns.str.strip().str.lower()\<close>\<close>

definition normalize_columns :: "frame \<Rightarrow> frame" where
  "normalize_columns df = DataFrame (map (\<lambda>c. lower (strip c)) (columns df)) (rows df)"

text \<open>\<open>lambda x: x.strip() if isinstance(x, str) else x\<close>\<close>

fun strip_cell :: "cell \<Rightarrow> cell" where
  "strip_cell (Str s) = Str (strip s)"
| "strip_cell x = x"

definition applymap :: "(cell \<Rightarrow> cell) \<Rightarrow> frame \<Rightarrow> frame" where
  "applymap f df = DataFrame (columns df) (map (map f) (rows df))"


section \<open>Exceptions, console and files\<close>

datatype exn =
    FileNotFoundError string
  | ValueError string
  | KeyError string
  | AttributeError string
  | RenderError string

text \<open>\<open>str(e)\<close>; a path is shown quoted, with its backslashes doubled.\<close>

definition quoted :: "string \<Rightarrow> string" where
  "quoted s = [CHR 0x27] @ s @ [CHR 0x27]"

fun str_exn :: "exn \<Rightarrow> string" where
  "str_exn (FileNotFoundError p) = ''[Errno 2] No such file or directory: '' @
     quoted (concat (map (\<lambda>c. if c = CHR 0x5C then [c, c] else [c]) p))"
| "str_exn (ValueError m) = m"
| "str_exn (KeyError k) = quoted k"
| "str_exn (AttributeError m) = m"
| "str_exn (RenderError m) = m"

text \<open>
  One call of \<open>print\<close> is the list of its arguments.  A printed argument is a string,
  a number, an array of cells (what \<open>Series.unique()\<close> returns) or a list of numbers
  (what \<open>DataFrame.nunique()\<close> returns).
\<close>

datatype pyarg = PStr string | PInt nat | PArr "cell list" | PCounts "nat list"

type_synonym image = "nat list"

datatype disk_file = Workbook frame | Image image | Other

record world =
  console :: "pyarg list list"
  files :: "string \<rightharpoonup> disk_file"

definition print :: "pyarg list \<Rightarrow> world \<Rightarrow> world" where
  "print args w = w\<lparr>console := console w @ [args]\<rparr>"

definition write_file :: "string \<Rightarrow> disk_file \<Rightarrow> world \<Rightarrow> world" where
  "write_file name f w = w\<lparr>files := (files w)(name \<mapsto> f)\<rparr>"

text \<open>
  \<open>pd.read_excel(file_path)\<close>: the table of the workbook at that path, or the
  exception of a missing or unparsable file.
\<close>

definition read_excel :: "(string \<rightharpoonup> disk_file) \<Rightarrow> string \<Rightarrow> exn + frame" where
  "read_excel fs p = (case fs p of
       None \<Rightarrow> Inl (FileNotFoundError p)
     | Some (Workbook t) \<Rightarrow> Inr t
     | Some _ \<Rightarrow> Inl (ValueError
         ''Excel file format cannot be determined, you must specify an engine manually.''))"


section \<open>Loader and cleaner\<close>

definition required_columns :: "string list" where
  "required_columns = [''statename'', ''district'', ''officetype'', ''regionname'', ''delivery'']"

text \<open>The loop over \<open>required_columns\<close>: the first absent one raises \<open>ValueError\<close>.\<close>

primrec verify_required :: "string list \<Rightarrow> string list \<Rightarrow> exn + unit" where
  "verify_required [] cols = Inr ()"
| "verify_required (col # cs) cols =
     (if col \<notin> set cols
      then Inl (ValueError (''Required column '' @ quoted col @ '' not found in dataset''))
      else verify_required cs cols)"

text \<open>The body of the \<open>try\<close> block of \<open>load_and_clean_data\<close>, after the read.\<close>

definition clean :: "frame \<Rightarrow> exn + frame" where
  "clean df =
     (let df_cleaned = df;
          df_cleaned = dropna df_cleaned;
          df_cleaned = drop_duplicates df_cleaned;
          df_cleaned = normalize_columns df_cleaned;
          df_cleaned = applymap strip_cell df_cleaned
      in case verify_required required_columns (columns df_cleaned) of
           Inl e \<Rightarrow> Inl e
         | Inr _ \<Rightarrow> Inr df_cleaned)"

definition try_load :: "(string \<rightharpoonup> disk_file) \<Rightarrow> string \<Rightarrow> exn + frame" where
  "try_load fs file_path =
     (case read_excel fs file_path of Inl e \<Rightarrow> Inl e | Inr df \<Rightarrow> clean df)"

text \<open>
  \<open>load_and_clean_data\<close>: the \<open>try\<close> block and its handler, which prints the error and
  returns \<open>None\<close>.
\<close>

definition load_and_clean_data :: "string \<Rightarrow> world \<Rightarrow> frame option \<times> world" where
  "load_and_clean_data file_path w =
     (case try_load (files w) file_path of
        Inr df_cleaned \<Rightarrow> (Some df_cleaned, w)
      | Inl e \<Rightarrow> (None, print [PStr (''Error loading or cleaning data: '' @ str_exn e)] w))"


section \<open>Selecting columns\<close>

text \<open>
  \<open>df[c]\<close> looks the label up among the column labels: no column with that label
  raises \<open>KeyError\<close>, exactly one gives that column as a \<open>Series\<close>, several give the
  frame of these columns.
\<close>

primrec positions :: "string list \<Rightarrow> string \<Rightarrow> nat \<Rightarrow> nat list" where
  "positions [] c i = []"
| "positions (x # xs) c i =
     (if x = c then i # positions xs c (Suc i) else positions xs c (Suc i))"

definition cell_at :: "cell list \<Rightarrow> nat \<Rightarrow> cell" where
  "cell_at r i = (if i < length r then r ! i else NaN)"

definition column_values :: "frame \<Rightarrow> nat \<Rightarrow> cell list" where
  "column_values df i = map (\<lambda>r. cell_at r i) (rows df)"

datatype selection = Series "cell list" | SubFrame frame

definition getitem :: "frame \<Rightarrow> string \<Rightarrow> exn + selection" where
  "getitem df c = (case positions (columns df) c 0 of
       [] \<Rightarrow> Inl (KeyError c)
     | [i] \<Rightarrow> Inr (Series (column_values df i))
     | i # j # ks \<Rightarrow> Inr (SubFrame (DataFrame (map (\<lambda>_. c) (i # j # ks))
         (map (\<lambda>r. map (cell_at r) (i # j # ks)) (rows df)))))"

text \<open>
  \<open>nunique()\<close> counts the distinct values that are not missing, per column on a frame;
  \<open>unique()\<close> gives the distinct values in the order of first appearance, and a frame
  has no such method.
\<close>

definition n_distinct :: "cell list \<Rightarrow> nat" where
  "n_distinct s = length (first_seen [] (filter (\<lambda>x. x \<noteq> NaN) s))"

definition nunique :: "selection \<Rightarrow> pyarg" where
  "nunique sel = (case sel of
       Series s \<Rightarrow> PInt (n_distinct s)
     | SubFrame f \<Rightarrow> PCounts (map (\<lambda>i. n_distinct (column_values f i)) [0..<length (columns f)]))"

definition unique :: "selection \<Rightarrow> exn + pyarg" where
  "unique sel = (case sel of
       Series s \<Rightarrow> Inr (PArr (first_seen [] s))
     | SubFrame f \<Rightarrow> Inl (AttributeError
         (quoted ''DataFrame'' @ '' object has no attribute '' @ quoted ''unique'')))"

text \<open>
  \<open>value_counts()\<close>: every distinct value with the number of its occurrences, by
  descending count; values of equal count stay in the order of first appearance.
  Missing values are not counted.
\<close>

definition value_counts :: "'a list \<Rightarrow> ('a \<times> nat) list" where
  "value_counts xs =
     sort_key (\<lambda>p. - int (snd p)) (map (\<lambda>x. (x, count_list xs x)) (first_seen [] xs))"

datatype label = Lab cell | Tuple "cell list"

definition counts_of :: "selection \<Rightarrow> (label \<times> nat) list" where
  "counts_of sel = (case sel of
       Series s \<Rightarrow> map (\<lambda>(x, n). (Lab x, n)) (value_counts (filter (\<lambda>x. x \<noteq> NaN) s))
     | SubFrame f \<Rightarrow>
         map (\<lambda>(r, n). (Tuple r, n)) (value_counts (filter (\<lambda>r. NaN \<notin> set r) (rows f))))"


section \<open>Stages\<close>

text \<open>
  Python passes the cleaned table by reference, so a stage could change it in place: a
  stage takes the table and the world and returns the uncaught exception, if any, the
  table as the stage leaves it, and the world.
\<close>

type_synonym stage = "frame \<Rightarrow> world \<Rightarrow> exn option \<times> frame \<times> world"

definition and_then :: "stage \<Rightarrow> stage \<Rightarrow> stage" where
  "and_then f g df w = (case f df w of
       (Some e, df', w') \<Rightarrow> (Some e, df', w')
     | (None, df', w') \<Rightarrow> g df' w')"

primrec in_sequence :: "stage list \<Rightarrow> stage" where
  "in_sequence [] = (\<lambda>df w. (None, df, w))"
| "in_sequence (s # ss) = and_then s (in_sequence ss)"

definition say :: "pyarg list \<Rightarrow> stage" where
  "say args df w = (None, df, print args w)"

definition say_value :: "string \<Rightarrow> (frame \<Rightarrow> exn + pyarg) \<Rightarrow> stage" where
  "say_value caption v df w = (case v df of
       Inl e \<Rightarrow> (Some e, df, w)
     | Inr a \<Rightarrow> (None, df, print [PStr caption, a] w))"


section \<open>Summarizer\<close>

definition generate_summary_stats :: stage where
  "generate_summary_stats = in_sequence
     [say [PStr (CHR 0x0A # ''=== BASIC SUMMARY ==='')],
      say_value ''Total Entries After Cleaning:'' (\<lambda>df. Inr (PInt (length (rows df)))),
      say_value ''Unique States:''
        (\<lambda>df. case getitem df ''statename'' of Inl e \<Rightarrow> Inl e | Inr s \<Rightarrow> Inr (nunique s)),
      say_value ''Unique Districts:''
        (\<lambda>df. case getitem df ''district'' of Inl e \<Rightarrow> Inl e | Inr s \<Rightarrow> Inr (nunique s)),
      say_value ''Unique Office Types:''
        (\<lambda>df. case getitem df ''officetype'' of Inl e \<Rightarrow> Inl e | Inr s \<Rightarrow> unique s)]"


section \<open>Visualizer\<close>

text \<open>
  A chart is the aggregate view handed to the plotting library.  The library itself is a
  parameter \<open>render\<close>: it turns a chart into the bytes of an image or raises.  The
  annotated bar chart carries, beside its bars, the numbers written above them.
\<close>

datatype chart =
    BarH "(label \<times> nat) list"
  | Bar "(label \<times> nat) list"
  | StackedBar "cell list" "(cell \<times> nat list) list"
  | AnnotatedBar "(label \<times> nat) list" "int list"
  | Heatmap "(label \<times> nat) list"

text \<open>The order of group keys: numbers before strings, strings by code point.\<close>

fun str_le :: "string \<Rightarrow> string \<Rightarrow> bool" where
  "str_le [] t = True"
| "str_le (a # s) [] = False"
| "str_le (a # s) (b # t) =
     ((of_char a :: nat) < of_char b \<or> (a = b \<and> str_le s t))"

fun cell_le :: "cell \<Rightarrow> cell \<Rightarrow> bool" where
  "cell_le (Num a) (Num b) = (a \<le> b)"
| "cell_le (Num a) y = True"
| "cell_le (Str s) (Str t) = str_le s t"
| "cell_le (Str s) (Num b) = False"
| "cell_le (Str s) NaN = True"
| "cell_le NaN y = (y = NaN)"

primrec insert_cell :: "cell \<Rightarrow> cell list \<Rightarrow> cell list" where
  "insert_cell x [] = [x]"
| "insert_cell x (y # ys) = (if cell_le x y then x # y # ys else y # insert_cell x ys)"

definition sort_cells :: "cell list \<Rightarrow> cell list" where
  "sort_cells xs = foldr insert_cell xs []"

text \<open>\<open>df[c].value_counts()\<close>, passed on to the chart built from it.\<close>

definition counted :: "string \<Rightarrow> ((label \<times> nat) list \<Rightarrow> chart) \<Rightarrow> frame \<Rightarrow> exn + chart" where
  "counted c k df = (case getitem df c of
       Inl e \<Rightarrow> Inl e
     | Inr sel \<Rightarrow> Inr (k (counts_of sel)))"

text \<open>\<open>df.groupby(['statename', 'delivery']).size().unstack().fillna(0)\<close>\<close>

definition not_one_dimensional :: "string \<Rightarrow> exn" where
  "not_one_dimensional c = ValueError (''Grouper for '' @ quoted c @ '' not 1-dimensional'')"

definition delivery_counts :: "frame \<Rightarrow> exn + chart" where
  "delivery_counts df = (case getitem df ''statename'' of
       Inl e \<Rightarrow> Inl e
     | Inr (SubFrame f) \<Rightarrow> Inl (not_one_dimensional ''statename'')
     | Inr (Series states) \<Rightarrow> (case getitem df ''delivery'' of
           Inl e \<Rightarrow> Inl e
         | Inr (SubFrame f) \<Rightarrow> Inl (not_one_dimensional ''delivery'')
         | Inr (Series deliveries) \<Rightarrow>
             (let pairs = filter (\<lambda>(s, d). s \<noteq> NaN \<and> d \<noteq> NaN) (zip states deliveries);
                  index = sort_cells (first_seen [] (map fst pairs));
                  cats = sort_cells (first_seen [] (map snd pairs))
              in Inr (StackedBar cats
                   (map (\<lambda>s. (s, map (\<lambda>d. count_list pairs (s, d)) cats)) index)))))"

text \<open>\<open>value_counts().head(10)\<close> and the labels \<open>int(p.get_height())\<close> of its bars.\<close>

definition top10 :: "(label \<times> nat) list \<Rightarrow> (label \<times> nat) list" where
  "top10 cs = take 10 cs"

definition annotations :: "(label \<times> nat) list \<Rightarrow> int list" where
  "annotations bars = map (\<lambda>p. int (snd p)) bars"

definition top10_states :: "frame \<Rightarrow> exn + chart" where
  "top10_states = counted ''statename''
     (\<lambda>cs. let state_counts = top10 cs in AnnotatedBar state_counts (annotations state_counts))"

text \<open>Draw a chart and save it under a name; nothing is written when either step raises.\<close>

definition savefig :: "(chart \<Rightarrow> exn + image) \<Rightarrow> string \<Rightarrow> (frame \<Rightarrow> exn + chart) \<Rightarrow> stage" where
  "savefig render name view df w = (case view df of
       Inl e \<Rightarrow> (Some e, df, w)
     | Inr ch \<Rightarrow> (case render ch of
           Inl e \<Rightarrow> (Some e, df, w)
         | Inr img \<Rightarrow> (None, df, write_file name (Image img) w)))"

definition create_visualizations :: "(chart \<Rightarrow> exn + image) \<Rightarrow> stage" where
  "create_visualizations render = in_sequence
     [savefig render ''region_wise_postoffices.png'' (counted ''regionname'' BarH),
      savefig render ''postoffice_types.png'' (counted ''officetype'' Bar),
      savefig render ''delivery_vs_non_delivery.png'' delivery_counts,
      savefig render ''top10_states_postoffices.png'' top10_states,
      savefig render ''top10_districts_heatmap.png''
        (counted ''district'' (\<lambda>cs. Heatmap (top10 cs)))]"


section \<open>Exporter and entry point\<close>

text \<open>\<open>df.to_excel(name, index=False)\<close>\<close>

definition to_excel :: "string \<Rightarrow> stage" where
  "to_excel name df w = (None, df, write_file name (Workbook df) w)"

definition file_path :: string where
  "file_path = ''C:'' @ [CHR 0x5C] @ ''Users'' @ [CHR 0x5C] @ ''Asus'' @ [CHR 0x5C] @
     ''Downloads'' @ [CHR 0x5C] @ ''datasetGPTkeLiye.xlsx''"

definition main :: "(chart \<Rightarrow> exn + image) \<Rightarrow> world \<Rightarrow> exn option \<times> world" where
  "main render w0 =
     (case load_and_clean_data file_path (print [PStr ''Loading and cleaning data...''] w0) of
        (Some df_cleaned, w) \<Rightarrow>
          (case in_sequence
                  [generate_summary_stats,
                   say [PStr (CHR 0x0A # ''Creating visualizations...'')],
                   create_visualizations render,
                   to_excel ''cleaned_postal_dataset.xlsx'',
                   say [PStr (CHR 0x0A # ''Cleaned dataset saved as '' @
                          quoted ''cleaned_postal_dataset.xlsx'')],
                   say [PStr (CHR 0x0A # ''All visualizations saved successfully!'')]]
                  df_cleaned w of
             (r, df, w') \<Rightarrow> (r, w'))
      | (None, w) \<Rightarrow>
          (None, print [PStr ''Failed to process data. Please check the input file and try again.''] w))"


section \<open>Auxiliary notions for the statements\<close>

text \<open>The table after the four cleaning steps, before the required columns are verified.\<close>

definition cleaned_of :: "frame \<Rightarrow> frame" where
  "cleaned_of raw = applymap strip_cell (normalize_columns (drop_duplicates (dropna raw)))"

text \<open>The rows of the raw table that survive the null drop and the duplicate drop.\<close>

definition kept_rows :: "frame \<Rightarrow> cell list list" where
  "kept_rows raw = first_seen [] (filter (\<lambda>r. NaN \<notin> set r) (rows raw))"

text \<open>A world whose only file is the input workbook, with nothing printed yet.\<close>

definition on_disk :: "frame \<Rightarrow> world" where
  "on_disk t = \<lparr>console = [], files = [file_path \<mapsto> Workbook t]\<rparr>"

text \<open>Sample tables.\<close>

definition no_delivery :: frame where
  "no_delivery = DataFrame [''StateName '', ''District'', ''OfficeType'', ''RegionName'']
     [[Str ''Goa'', Str ''North Goa'', Str ''BO'', Str ''Panaji'']]"

definition sample :: frame where
  "sample = DataFrame [''StateName '', ''District'', ''OfficeType'', ''RegionName'', ''Delivery'']
     [[Str '' Goa'', Str ''North Goa'', Str ''BO'', Str ''Panaji'', Num 1],
      [Str ''Goa'', Str ''North Goa'', Str ''BO'', Str ''Panaji'', Num 1],
      [Str ''Goa'', Str ''North Goa'', Str ''BO'', Str ''Panaji'', Num 1],
      [Str ''Goa'', NaN, Str ''SO'', Str ''Panaji'', Num 0]]"

definition sample_cleaned :: frame where
  "sample_cleaned =
     DataFrame [''statename'', ''district'', ''officetype'', ''regionname'', ''delivery'']
     [[Str ''Goa'', Str ''North Goa'', Str ''BO'', Str ''Panaji'', Num 1],
      [Str ''Goa'', Str ''North Goa'', Str ''BO'', Str ''Panaji'', Num 1]]"

definition tidy :: frame where
  "tidy = DataFrame [''StateName '', ''District'', ''OfficeType'', ''RegionName'', ''Delivery'']
     [[Str '' Goa'', Str ''North Goa'', Str ''BO'', Str ''Panaji'', Num 1],
      [Str ''Goa '', Str ''South Goa'', Str ''SO'', Str ''Panaji'', Num 0],
      [Str '' Goa'', Str ''North Goa'', Str ''BO'', Str ''Panaji'', Num 1]]"

definition tidy_cleaned :: frame where
  "tidy_cleaned =
     DataFrame [''statename'', ''district'', ''officetype'', ''regionname'', ''delivery'']
     [[Str ''Goa'', Str ''North Goa'', Str ''BO'', Str ''Panaji'', Num 1],
      [Str ''Goa'', Str ''South Goa'', Str ''SO'', Str ''Panaji'', Num 0]]"


text \<open>The cells under a label: those of the first column that carries it.\<close>

definition column :: "frame \<Rightarrow> string \<Rightarrow> cell list" where
  "column df c = (case positions (columns df) c 0 of [] \<Rightarrow> [] | i # others \<Rightarrow> column_values df i)"

text \<open>The names of the five image files.\<close>

definition image_names :: "string list" where
  "image_names = [''region_wise_postoffices.png'', ''postoffice_types.png'',
     ''delivery_vs_non_delivery.png'', ''top10_states_postoffices.png'',
     ''top10_districts_heatmap.png'']"

text \<open>What a stage may leave alone: the table, one file, the console.\<close>

definition keeps_table :: "stage \<Rightarrow> bool" where
  "keeps_table s = (\<forall>df w. fst (snd (s df w)) = df)"

definition keeps_file :: "string \<Rightarrow> stage \<Rightarrow> bool" where
  "keeps_file p s = (\<forall>df w. files (snd (snd (s df w))) p = files w p)"

definition keeps_console :: "stage \<Rightarrow> bool" where
  "keeps_console s = (\<forall>df w. console (snd (snd (s df w))) = console w)"

text \<open>
  The first and the last print calls of a complete run, and two observations of the world
  after a run that started with an empty console: the five print calls that follow the
  loading banner, which are the Summarizer's when the Loader succeeds, and the number of
  rows of the exported spreadsheet.
\<close>

definition banner :: "pyarg list" where
  "banner = [PStr ''Loading and cleaning data...'']"

definition closing :: "pyarg list list" where
  "closing = [[PStr (CHR 0x0A # ''Cleaned dataset saved as '' @ quoted ''cleaned_postal_dataset.xlsx'')],
     [PStr (CHR 0x0A # ''All visualizations saved successfully!'')]]"

definition summarizer_output :: "world \<Rightarrow> pyarg list list" where
  "summarizer_output w = take 5 (drop 1 (console w))"

definition exported_row_count :: "world \<Rightarrow> nat option" where
  "exported_row_count w = (case files w ''cleaned_postal_dataset.xlsx'' of
       Some (Workbook t) \<Rightarrow> Some (length (rows t))
     | _ \<Rightarrow> None)"

text \<open>Fifteen states, the i-th of them with i rows, and the ten largest of them.\<close>

definition fifteen_states :: frame where
  "fifteen_states = DataFrame [''statename'']
     (concat (map (\<lambda>i. replicate (Suc i) [Str [CHR ''S'', char_of (65 + i)]]) [0..<15]))"

definition top_bars :: "(label \<times> nat) list" where
  "top_bars = [(Lab (Str ''SO''), 15), (Lab (Str ''SN''), 14), (Lab (Str ''SM''), 13),
     (Lab (Str ''SL''), 12), (Lab (Str ''SK''), 11), (Lab (Str ''SJ''), 10),
     (Lab (Str ''SI''), 9), (Lab (Str ''SH''), 8), (Lab (Str ''SG''), 7), (Lab (Str ''SF''), 6)]"


section \<open>The cleaning steps as the specification words them\<close>

text \<open>
  The specification lists six steps: copy the raw table, drop every row with a missing
  value, drop exact-duplicate rows, strip and lowercase the column names, trim every
  string cell and leave the other cells unchanged, verify that the five required columns
  are present.  \<open>spec_cleaner\<close> composes them in that order.
\<close>

definition copy_table :: "frame \<Rightarrow> frame" where
  "copy_table t = t"

definition drop_rows_with_missing :: "frame \<Rightarrow> frame" where
  "drop_rows_with_missing t = DataFrame (columns t) (filter (\<lambda>r. \<forall>c \<in> set r. c \<noteq> NaN) (rows t))"

fun keep_first :: "'a list \<Rightarrow> 'a list" where
  "keep_first [] = []"
| "keep_first (r # rs) = r # keep_first (filter (\<lambda>x. x \<noteq> r) rs)"

definition drop_exact_duplicates :: "frame \<Rightarrow> frame" where
  "drop_exact_duplicates t = DataFrame (columns t) (keep_first (rows t))"

definition normalize_names :: "frame \<Rightarrow> frame" where
  "normalize_names t = DataFrame (map (lower \<circ> strip) (columns t)) (rows t)"

definition trim_strings :: "frame \<Rightarrow> frame" where
  "trim_strings t = DataFrame (columns t)
     (map (map (\<lambda>c. case c of Str s \<Rightarrow> Str (strip s) | _ \<Rightarrow> c)) (rows t))"

definition verify_columns :: "frame \<Rightarrow> frame option" where
  "verify_columns t = (if \<forall>c \<in> set required_columns. c \<in> set (columns t) then Some t else None)"

definition spec_cleaner :: "frame \<Rightarrow> frame option" where
  "spec_cleaner = verify_columns \<circ> trim_strings \<circ> normalize_names \<circ> drop_exact_duplicates \<circ>
     drop_rows_with_missing \<circ> copy_table"


section \<open>Facts about the building blocks\<close>

lemma set_first_seen: "set (first_seen seen xs) = set xs - set seen"
  by (induction xs arbitrary: seen) auto

lemma distinct_first_seen: "distinct (first_seen seen xs)"
  by (induction xs arbitrary: seen) (auto simp: set_first_seen)

lemma of_char_bound: "(of_char c :: nat) < 256"
  by (cases c) (simp add: of_char_def)

lemma not_upper_lower_char: "\<not> is_upper (lower_char c)"
  using of_char_bound [of c]
  by (auto simp: is_upper_def lower_char_def Let_def)

lemma is_space_lower_char: "is_space (lower_char c) = is_space c"
  using of_char_bound [of c]
  by (auto simp: is_upper_def lower_char_def is_space_def Let_def)

lemma strip_split:
  "dropWhile is_space s = strip s @ rev (takeWhile is_space (rev (dropWhile is_space s)))"
proof -
  have "rev (dropWhile is_space s) =
      takeWhile is_space (rev (dropWhile is_space s)) @
      dropWhile is_space (rev (dropWhile is_space s))"
    by simp
  then have "rev (rev (dropWhile is_space s)) =
      rev (takeWhile is_space (rev (dropWhile is_space s)) @
           dropWhile is_space (rev (dropWhile is_space s)))"
    by simp
  then show ?thesis unfolding strip_def by (simp only: rev_rev_ident rev_append)
qed

lemma trimmed_strip: "trimmed (strip s)"
proof (cases "strip s = []")
  case True
  then show ?thesis by (simp add: trimmed_def)
next
  case False
  let ?t = "dropWhile is_space s"
  have ne: "dropWhile is_space (rev ?t) \<noteq> []" using False by (simp add: strip_def)
  have "last (strip s) = hd (dropWhile is_space (rev ?t))"
    using ne by (simp add: strip_def last_rev)
  moreover have "\<not> is_space (hd (dropWhile is_space (rev ?t)))"
    using ne hd_dropWhile by blast
  ultimately have l: "\<not> is_space (last (strip s))" by simp
  have "hd ?t = hd (strip s)" using strip_split [of s] False by (metis hd_append2)
  moreover have "?t \<noteq> []" using strip_split [of s] False by (metis append_is_Nil_conv)
  then have "\<not> is_space (hd ?t)" using hd_dropWhile by blast
  ultimately have "\<not> is_space (hd (strip s))" by simp
  with l show ?thesis by (simp add: trimmed_def)
qed

lemma trimmed_lower: "trimmed s \<Longrightarrow> trimmed (lower s)"
  by (auto simp: trimmed_def lower_def hd_map last_map is_space_lower_char)

lemma is_lowercase_lower: "is_lowercase (lower s)"
  by (simp add: is_lowercase_def lower_def not_upper_lower_char)

lemma strip_cell_trimmed: "Str s \<in> set (map strip_cell r) \<Longrightarrow> trimmed s"
proof -
  assume "Str s \<in> set (map strip_cell r)"
  then obtain c where c: "strip_cell c = Str s" by auto
  show "trimmed s"
  proof (cases c)
    case (Str t)
    with c have "s = strip t" by simp
    then show ?thesis by (simp add: trimmed_strip)
  qed (use c in simp_all)
qed

lemma files_print [simp]: "files (print a w) = files w"
  by (simp add: print_def)

lemma console_print [simp]: "console (print a w) = console w @ [a]"
  by (simp add: print_def)


section \<open>Facts about the Loader\<close>

lemma verify_required_Inr: "(verify_required cs cols = Inr u) = (set cs \<subseteq> set cols)"
  by (induction cs) auto

lemma verify_required_Inl:
  "verify_required cs cols = Inl e \<Longrightarrow>
     \<exists>c \<in> set cs. c \<notin> set cols \<and>
       e = ValueError (''Required column '' @ quoted c @ '' not found in dataset'')"
  by (induction cs) (auto split: if_splits)

lemma clean_present:
  assumes "set required_columns \<subseteq> set (columns (cleaned_of raw))"
  shows "clean raw = Inr (cleaned_of raw)"
proof -
  have "verify_required required_columns (columns (cleaned_of raw)) = Inr ()"
    using assms by (simp only: verify_required_Inr)
  then show ?thesis by (simp add: clean_def cleaned_of_def)
qed

lemma clean_absent:
  assumes "\<not> set required_columns \<subseteq> set (columns (cleaned_of raw))"
  shows "\<exists>c \<in> set required_columns. c \<notin> set (columns (cleaned_of raw)) \<and>
     clean raw = Inl (ValueError (''Required column '' @ quoted c @ '' not found in dataset''))"
proof (cases "verify_required required_columns (columns (cleaned_of raw))")
  case (Inl e)
  from verify_required_Inl [OF Inl] obtain c where
    "c \<in> set required_columns" "c \<notin> set (columns (cleaned_of raw))"
    "e = ValueError (''Required column '' @ quoted c @ '' not found in dataset'')" by blast
  moreover have "clean raw = Inl e" using Inl by (simp add: clean_def cleaned_of_def)
  ultimately show ?thesis by blast
next
  case (Inr u)
  then show ?thesis using assms by (simp only: verify_required_Inr)
qed

lemma columns_cleaned_of: "columns (cleaned_of raw) = map (\<lambda>c. lower (strip c)) (columns raw)"
  by (simp add: cleaned_of_def applymap_def normalize_columns_def drop_duplicates_def dropna_def)

lemma rows_cleaned_of: "rows (cleaned_of raw) = map (map strip_cell) (kept_rows raw)"
  by (simp add: cleaned_of_def applymap_def normalize_columns_def drop_duplicates_def
      dropna_def kept_rows_def)

lemma clean_Inr_D:
  "clean raw = Inr d \<Longrightarrow> d = cleaned_of raw \<and> set required_columns \<subseteq> set (columns d)"
  using clean_present [of raw] clean_absent [of raw]
  by (cases "set required_columns \<subseteq> set (columns (cleaned_of raw))") auto

lemma load_Some_D:
  assumes "load_and_clean_data p w = (Some d, w')"
  shows "\<exists>raw. files w p = Some (Workbook raw) \<and> clean raw = Inr d \<and> w' = w"
  using assms
  by (auto simp: load_and_clean_data_def try_load_def read_excel_def
      split: sum.splits option.splits disk_file.splits)

lemma load_on_disk:
  "clean t = Inr d \<Longrightarrow> load_and_clean_data file_path (on_disk t) = (Some d, on_disk t)"
  by (simp add: load_and_clean_data_def try_load_def read_excel_def on_disk_def)

lemma clean_sample: "clean sample = Inr sample_cleaned"
  by code_simp

lemma clean_tidy: "clean tidy = Inr tidy_cleaned"
  by code_simp

lemma files_on_disk: "files (on_disk t) file_path = Some (Workbook t)"
  by (simp add: on_disk_def)


section \<open>The Loader: claims\<close>

text \<open>
  Claim C1.  When the input workbook lacks one of the five required columns after the
  column names are normalized, \<open>load_and_clean_data\<close> returns \<open>None\<close>; the entry point
  prints the loading banner, the column-not-found message of the first missing column
  and the failure message, returns, and leaves every file as it was: no image and no
  spreadsheet is written.
\<close>

theorem missing_column_aborts:
  assumes "files w file_path = Some (Workbook raw)"
    and "\<not> set required_columns \<subseteq> set (map (\<lambda>c. lower (strip c)) (columns raw))"
  shows "\<exists>c \<in> set required_columns.
      c \<notin> set (map (\<lambda>c. lower (strip c)) (columns raw)) \<and>
      fst (load_and_clean_data file_path w) = None \<and>
      main render w = (None, w\<lparr>console := console w @
        [[PStr ''Loading and cleaning data...''],
         [PStr (''Error loading or cleaning data: Required column '' @ quoted c @
                '' not found in dataset'')],
         [PStr ''Failed to process data. Please check the input file and try again.'']]\<rparr>) \<and>
      files (snd (main render w)) = files w"
proof -
  from assms(2) have "\<not> set required_columns \<subseteq> set (columns (cleaned_of raw))"
    by (simp add: columns_cleaned_of)
  from clean_absent [OF this] obtain c where c: "c \<in> set required_columns"
    "c \<notin> set (columns (cleaned_of raw))"
    "clean raw = Inl (ValueError (''Required column '' @ quoted c @ '' not found in dataset''))"
    by blast
  have t: "\<And>v. files v = files w \<Longrightarrow> try_load (files v) file_path =
      Inl (ValueError (''Required column '' @ quoted c @ '' not found in dataset''))"
    using assms(1) c(3) by (simp add: try_load_def read_excel_def)
  have l: "fst (load_and_clean_data file_path w) = None"
    using t [of w] by (simp add: load_and_clean_data_def)
  have m: "main render w = (None, w\<lparr>console := console w @
        [[PStr ''Loading and cleaning data...''],
         [PStr (''Error loading or cleaning data: Required column '' @ quoted c @
                '' not found in dataset'')],
         [PStr ''Failed to process data. Please check the input file and try again.'']]\<rparr>)"
    using t [of "print [PStr ''Loading and cleaning data...''] w"]
    by (simp add: main_def load_and_clean_data_def print_def)
  have "files (snd (main render w)) = files w" by (simp add: m)
  with c(1,2) l m show ?thesis unfolding columns_cleaned_of by blast
qed

theorem missing_column_aborts_witness:
  "fst (load_and_clean_data file_path (on_disk no_delivery)) = None \<and>
   fst (main (\<lambda>ch. Inr []) (on_disk no_delivery)) = None \<and>
   files (snd (main (\<lambda>ch. Inr []) (on_disk no_delivery))) = files (on_disk no_delivery)"
proof -
  have h1: "files (on_disk no_delivery) file_path = Some (Workbook no_delivery)"
    by (simp add: on_disk_def)
  have h2: "\<not> set required_columns \<subseteq> set (map (\<lambda>c. lower (strip c)) (columns no_delivery))"
    by code_simp
  from missing_column_aborts [OF h1 h2, of "\<lambda>ch. Inr []"] show ?thesis by auto
qed

text \<open>
  Claim C3, as amended.  The rows of the cleaned table are the trimmed images of the rows
  kept by the null drop and the duplicate drop; the kept rows are pairwise distinct and
  are exactly the distinct rows of the input without a missing value.  The cleaned table
  has no two equal rows whenever trimming does not make two distinct kept rows equal.
\<close>

theorem cleaned_rows_distinct_before_trim:
  assumes "files w p = Some (Workbook raw)" and "load_and_clean_data p w = (Some d, w')"
  shows "rows d = map (map strip_cell) (kept_rows raw) \<and>
     distinct (kept_rows raw) \<and>
     set (kept_rows raw) = {r \<in> set (rows raw). NaN \<notin> set r} \<and>
     (inj_on (map strip_cell) (set (kept_rows raw)) \<longrightarrow> distinct (rows d))"
proof -
  from load_Some_D [OF assms(2)] assms(1) have "clean raw = Inr d" by auto
  then have "d = cleaned_of raw" by (simp add: clean_Inr_D)
  then have r: "rows d = map (map strip_cell) (kept_rows raw)"
    by (simp add: rows_cleaned_of)
  have k: "distinct (kept_rows raw)" by (simp add: kept_rows_def distinct_first_seen)
  have s: "set (kept_rows raw) = {r \<in> set (rows raw). NaN \<notin> set r}"
    by (auto simp: kept_rows_def set_first_seen)
  show ?thesis using r k s by (simp add: distinct_map)
qed

theorem cleaned_rows_distinct_before_trim_witness:
  "inj_on (map strip_cell) (set (kept_rows tidy)) \<and> distinct (rows tidy_cleaned) \<and>
   distinct (kept_rows tidy) \<and> length (kept_rows tidy) = 2"
proof -
  have k: "kept_rows tidy =
     [[Str '' Goa'', Str ''North Goa'', Str ''BO'', Str ''Panaji'', Num 1],
      [Str ''Goa '', Str ''South Goa'', Str ''SO'', Str ''Panaji'', Num 0]]"
    by code_simp
  have i: "inj_on (map strip_cell) (set (kept_rows tidy))"
    unfolding k by (simp add: inj_on_def)
  from cleaned_rows_distinct_before_trim [OF files_on_disk load_on_disk [OF clean_tidy]] i
  show ?thesis by (simp add: k)
qed

text \<open>
  The claim C3 as the specification states it fails: two input rows that differ only in
  the whitespace around a string are both kept by the duplicate drop, which comes before
  the trimming, and are equal afterwards.
\<close>

theorem cleaned_rows_counterexample:
  "load_and_clean_data file_path (on_disk sample) = (Some sample_cleaned, on_disk sample) \<and>
   \<not> distinct (rows sample_cleaned)"
  by (simp add: load_on_disk [OF clean_sample]) (simp add: sample_cleaned_def)

text \<open>
  Claim C4.  Every string cell of the cleaned table is free of leading and trailing
  whitespace.  Cell by cell, the cleaned table is the table of the kept input rows with
  every string cell replaced by its stripped value and every other cell left as it is.
\<close>

theorem cleaned_cells:
  assumes "files w p = Some (Workbook raw)" and "load_and_clean_data p w = (Some d, w')"
  shows "(\<forall>r \<in> set (rows d). \<forall>s. Str s \<in> set r \<longrightarrow> trimmed s) \<and>
     set (kept_rows raw) \<subseteq> set (rows raw) \<and>
     length (rows d) = length (kept_rows raw) \<and>
     (\<forall>i < length (rows d). length (rows d ! i) = length (kept_rows raw ! i) \<and>
        (\<forall>j < length (rows d ! i).
           (\<forall>s. kept_rows raw ! i ! j = Str s \<longrightarrow> rows d ! i ! j = Str (strip s)) \<and>
           ((\<forall>s. kept_rows raw ! i ! j \<noteq> Str s) \<longrightarrow>
              rows d ! i ! j = kept_rows raw ! i ! j)))"
proof -
  from load_Some_D [OF assms(2)] assms(1) have "clean raw = Inr d" by auto
  then have "d = cleaned_of raw" by (simp add: clean_Inr_D)
  then have r: "rows d = map (map strip_cell) (kept_rows raw)"
    by (simp add: rows_cleaned_of)
  have a: "\<forall>r \<in> set (rows d). \<forall>s. Str s \<in> set r \<longrightarrow> trimmed s"
    unfolding r using strip_cell_trimmed by auto
  have b: "set (kept_rows raw) \<subseteq> set (rows raw)"
    by (auto simp: kept_rows_def set_first_seen)
  have c: "\<And>x. (\<forall>s. x = Str s \<longrightarrow> strip_cell x = Str (strip s)) \<and>
      ((\<forall>s. x \<noteq> Str s) \<longrightarrow> strip_cell x = x)"
  proof -
    fix x show "(\<forall>s. x = Str s \<longrightarrow> strip_cell x = Str (strip s)) \<and>
      ((\<forall>s. x \<noteq> Str s) \<longrightarrow> strip_cell x = x)" by (cases x) auto
  qed
  show ?thesis using a b c by (simp add: r)
qed

theorem cleaned_cells_witness:
  "kept_rows tidy ! 1 ! 0 = Str ''Goa '' \<and> rows tidy_cleaned ! 1 ! 0 = Str (strip ''Goa '') \<and>
   kept_rows tidy ! 1 ! 4 = Num 0 \<and> rows tidy_cleaned ! 1 ! 4 = Num 0 \<and>
   trimmed ''South Goa''"
proof -
  have k: "kept_rows tidy =
     [[Str '' Goa'', Str ''North Goa'', Str ''BO'', Str ''Panaji'', Num 1],
      [Str ''Goa '', Str ''South Goa'', Str ''SO'', Str ''Panaji'', Num 0]]"
    by code_simp
  have a: "kept_rows tidy ! 1 ! 0 = Str ''Goa ''" "kept_rows tidy ! 1 ! 4 = Num 0"
    unfolding k by simp_all
  have m: "[Str ''Goa'', Str ''South Goa'', Str ''SO'', Str ''Panaji'', Num 0]
      \<in> set (rows tidy_cleaned)"
    by (simp add: tidy_cleaned_def)
  have n: "Str ''South Goa'' \<in> set [Str ''Goa'', Str ''South Goa'', Str ''SO'', Str ''Panaji'', Num 0]"
    by simp
  note c = cleaned_cells [OF files_on_disk load_on_disk [OF clean_tidy]]
  from c m n have t: "trimmed ''South Goa''" by blast
  have l: "1 < length (rows tidy_cleaned)" "0 < length (rows tidy_cleaned ! 1)"
    "4 < length (rows tidy_cleaned ! 1)"
    by (simp_all add: tidy_cleaned_def)
  from c l a have "rows tidy_cleaned ! 1 ! 0 = Str (strip ''Goa '')"
    "rows tidy_cleaned ! 1 ! 4 = Num 0" by auto
  with a t show ?thesis by simp
qed

text \<open>
  Claim C5.  Every column name of the cleaned table is lowercase and has neither leading
  nor trailing whitespace, whatever the column names of the input.
\<close>

theorem cleaned_column_names:
  assumes "load_and_clean_data p w = (Some d, w')"
  shows "\<forall>c \<in> set (columns d). is_lowercase c \<and> trimmed c"
proof -
  from load_Some_D [OF assms] obtain raw where "clean raw = Inr d" by blast
  then have "d = cleaned_of raw" by (simp add: clean_Inr_D)
  then have "columns d = map (\<lambda>c. lower (strip c)) (columns raw)"
    by (simp add: columns_cleaned_of)
  then show ?thesis by (auto simp: is_lowercase_lower trimmed_lower trimmed_strip)
qed

theorem cleaned_column_names_witness:
  "''StateName '' \<in> set (columns sample) \<and> ''statename'' \<in> set (columns sample_cleaned) \<and>
   is_lowercase ''statename'' \<and> trimmed ''statename''"
proof -
  have a: "''StateName '' \<in> set (columns sample)" by (simp add: sample_def)
  have b: "''statename'' \<in> set (columns sample_cleaned)" by (simp add: sample_cleaned_def)
  from cleaned_column_names [OF load_on_disk [OF clean_sample]] b
  have "is_lowercase ''statename'' \<and> trimmed ''statename''" by blast
  with a b show ?thesis by simp
qed




section \<open>The Loader follows the steps of the specification\<close>

lemma first_seen_keep_first: "first_seen seen xs = keep_first (filter (\<lambda>x. x \<notin> set seen) xs)"
proof (induction xs arbitrary: seen)
  case Nil
  show ?case by simp
next
  case (Cons x xs)
  have "filter (\<lambda>y. y \<noteq> x) (filter (\<lambda>y. y \<notin> set seen) xs) = filter (\<lambda>y. y \<notin> set (x # seen)) xs"
    by (induction xs) auto
  then show ?case using Cons.IH [of seen] Cons.IH [of "x # seen"] by simp
qed

lemma strip_cell_case: "strip_cell = (\<lambda>c. case c of Str s \<Rightarrow> Str (strip s) | _ \<Rightarrow> c)"
proof
  fix c show "strip_cell c = (case c of Str s \<Rightarrow> Str (strip s) | _ \<Rightarrow> c)" by (cases c) simp_all
qed

lemma spec_steps: "(trim_strings \<circ> normalize_names \<circ> drop_exact_duplicates \<circ>
     drop_rows_with_missing \<circ> copy_table) raw = cleaned_of raw"
proof -
  have "(\<lambda>r. \<forall>c \<in> set r. c \<noteq> NaN) = (\<lambda>r. NaN \<notin> set r)" by auto
  then show ?thesis
    by (simp add: cleaned_of_def trim_strings_def normalize_names_def drop_exact_duplicates_def
      drop_rows_with_missing_def copy_table_def applymap_def normalize_columns_def
      drop_duplicates_def dropna_def first_seen_keep_first [of "[]"] strip_cell_case comp_def)
qed

lemma spec_cleaner_clean: "spec_cleaner raw = (case clean raw of Inr d \<Rightarrow> Some d | Inl e \<Rightarrow> None)"
proof (cases "set required_columns \<subseteq> set (columns (cleaned_of raw))")
  case True
  have "spec_cleaner raw = verify_columns (cleaned_of raw)"
    using spec_steps [of raw] by (simp add: spec_cleaner_def)
  also have "\<dots> = Some (cleaned_of raw)" using True by (auto simp: verify_columns_def)
  finally show ?thesis using clean_present [OF True] by simp
next
  case False
  have "spec_cleaner raw = verify_columns (cleaned_of raw)"
    using spec_steps [of raw] by (simp add: spec_cleaner_def)
  also have "\<dots> = None" using False by (auto simp: verify_columns_def)
  finally show ?thesis using clean_absent [OF False] by auto
qed

text \<open>
  Claim C2.  For every input, the table \<open>load_and_clean_data\<close> returns is the result of
  the six steps of the specification, composed in its order: copy, drop the rows with a
  missing value, drop the exact duplicates, normalize the column names, trim the string
  cells, verify the required columns; it returns \<open>None\<close> when the verification or the
  read fails.
\<close>

theorem loader_follows_the_steps:
  "fst (load_and_clean_data p w) =
     (case read_excel (files w) p of Inr raw \<Rightarrow> spec_cleaner raw | Inl e \<Rightarrow> None)"
  by (simp add: load_and_clean_data_def try_load_def spec_cleaner_clean split: sum.splits)

theorem loader_follows_the_steps_witness:
  "spec_cleaner sample = Some sample_cleaned \<and>
   fst (load_and_clean_data file_path (on_disk sample)) = spec_cleaner sample"
proof -
  have r: "read_excel (files (on_disk sample)) file_path = Inr sample"
    by (simp add: read_excel_def on_disk_def)
  have "fst (load_and_clean_data file_path (on_disk sample)) = spec_cleaner sample"
    using loader_follows_the_steps [of file_path "on_disk sample"] by (simp add: r)
  then show ?thesis by (simp add: load_on_disk [OF clean_sample])
qed


section \<open>The Summarizer\<close>

lemma length_positions: "length (positions xs c i) = count_list xs c"
  by (induction xs arbitrary: i) auto

lemma getitem_single:
  assumes "count_list (columns df) c = 1"
  shows "getitem df c = Inr (Series (column df c))"
proof -
  have "length (positions (columns df) c 0) = 1" using assms by (simp add: length_positions)
  then obtain k where "positions (columns df) c 0 = [k]"
    by (cases "positions (columns df) c 0") auto
  then show ?thesis by (simp add: getitem_def column_def)
qed

lemma length_first_seen: "length (first_seen [] xs) = card (set xs)"
  using distinct_card [OF distinct_first_seen [of "[]" xs]] by (simp add: set_first_seen)






section \<open>The top ten states\<close>

lemma value_counts_set: "set (value_counts xs) = (\<lambda>x. (x, count_list xs x)) ` set xs"
  by (simp add: value_counts_def set_first_seen)

lemma value_counts_distinct: "distinct (map fst (value_counts xs))"
proof -
  have "distinct (value_counts xs)"
    by (simp add: value_counts_def distinct_map distinct_first_seen inj_on_def)
  moreover have "inj_on fst (set (value_counts xs))"
    by (auto simp: value_counts_set inj_on_def)
  ultimately show ?thesis by (simp add: distinct_map)
qed

lemma value_counts_length: "length (value_counts xs) = card (set xs)"
  by (simp add: value_counts_def length_first_seen)

lemma value_counts_sorted: "sorted_wrt (\<lambda>p q. snd q \<le> snd p) (value_counts xs)"
proof -
  have "sorted (map (\<lambda>p. - int (snd p)) (value_counts xs))"
    unfolding value_counts_def by (rule sorted_sort_key)
  then show ?thesis by (simp add: sorted_map)
qed

lemma descending_strict:
  "distinct (ns :: nat list) \<Longrightarrow> sorted_wrt (\<lambda>m n. n \<le> m) ns \<Longrightarrow> sorted_wrt (\<lambda>m n. n < m) ns"
  by (induction ns) (auto simp: le_less)

lemma value_counts_strict:
  assumes "inj_on (count_list xs) (set xs)"
  shows "sorted_wrt (\<lambda>p q. snd q < snd p) (value_counts xs)"
proof -
  have d: "distinct (map snd (value_counts xs))"
  proof -
    have "inj_on snd (set (value_counts xs))"
      using assms by (auto simp: value_counts_set inj_on_def)
    moreover have "distinct (value_counts xs)"
      using value_counts_distinct [of xs] by (simp add: distinct_map)
    ultimately show ?thesis by (simp add: distinct_map)
  qed
  have "sorted_wrt (\<lambda>m n. n \<le> m) (map snd (value_counts xs))"
    using value_counts_sorted [of xs] by (simp add: sorted_wrt_map)
  with d have "sorted_wrt (\<lambda>m n. n < m) (map snd (value_counts xs))"
    by (rule descending_strict)
  then show ?thesis by (simp add: sorted_wrt_map)
qed

lemma sorted_wrt_take_drop:
  assumes "sorted_wrt R ys"
  shows "\<forall>p \<in> set (take n ys). \<forall>q \<in> set (drop n ys). R p q"
proof -
  have "sorted_wrt R (take n ys @ drop n ys)" using assms by simp
  then show ?thesis unfolding sorted_wrt_append by blast
qed

lemma count_list_filter_neq: "s \<noteq> z \<Longrightarrow> count_list (filter (\<lambda>x. x \<noteq> z) xs) s = count_list xs s"
  by (induction xs) auto

lemma top10_states_series:
  assumes "count_list (columns df) ''statename'' = 1"
  shows "top10_states df =
     Inr (AnnotatedBar
        (map (\<lambda>(x, n). (Lab x, n))
           (take 10 (value_counts (filter (\<lambda>x. x \<noteq> NaN) (column df ''statename'')))))
        (map (\<lambda>p. int (snd p)) (map (\<lambda>(x, n). (Lab x, n))
           (take 10 (value_counts (filter (\<lambda>x. x \<noteq> NaN) (column df ''statename'')))))))"
  by (simp add: top10_states_def counted_def getitem_single [OF assms] counts_of_def top10_def
      annotations_def take_map Let_def)

text \<open>
  Claim C7.  On a table with at least ten distinct states whose row counts are pairwise
  distinct, the chart of the top ten states has exactly ten bars, one per state, each
  with the exact row count of its state, which is also the number written above it; the
  counts strictly descend, and every state left out has fewer rows than every state
  shown.
\<close>

theorem top10_states_highest:
  assumes "count_list (columns df) ''statename'' = 1"
    and "10 \<le> card (set (column df ''statename'') - {NaN})"
    and "inj_on (count_list (column df ''statename'')) (set (column df ''statename'') - {NaN})"
  shows "\<exists>bars. top10_states df = Inr (AnnotatedBar bars (map (\<lambda>p. int (snd p)) bars)) \<and>
     length bars = 10 \<and> distinct (map fst bars) \<and>
     (\<forall>p \<in> set bars. \<exists>s. fst p = Lab s \<and> s \<in> set (column df ''statename'') \<and> s \<noteq> NaN \<and>
        snd p = count_list (column df ''statename'') s) \<and>
     sorted_wrt (\<lambda>m n. n < m) (map snd bars) \<and>
     (\<forall>s \<in> set (column df ''statename'') - {NaN}. Lab s \<notin> fst ` set bars \<longrightarrow>
        (\<forall>p \<in> set bars. count_list (column df ''statename'') s < snd p))"
proof -
  define col where "col = column df ''statename''"
  define xs where "xs = filter (\<lambda>x. x \<noteq> NaN) col"
  define vc where "vc = value_counts xs"
  define bars where "bars = map (\<lambda>(x, n). (Lab x, n)) (take 10 vc)"
  have sx: "set xs = set col - {NaN}" by (auto simp: xs_def)
  have cx: "\<And>s. s \<noteq> NaN \<Longrightarrow> count_list xs s = count_list col s"
    by (simp add: xs_def count_list_filter_neq)
  have inj: "inj_on (count_list xs) (set xs)"
    using assms(3) unfolding sx col_def [symmetric] by (auto simp: inj_on_def cx)
  have vs: "set vc = (\<lambda>x. (x, count_list xs x)) ` set xs"
    by (simp add: vc_def value_counts_set)
  have strict: "sorted_wrt (\<lambda>p q. snd q < snd p) vc"
    unfolding vc_def by (rule value_counts_strict [OF inj])
  have len: "10 \<le> length vc"
    using assms(2) by (simp add: vc_def value_counts_length sx col_def)
  have fb: "map fst bars = map Lab (map fst (take 10 vc))"
    by (simp add: bars_def case_prod_unfold)
  have sb: "map snd bars = map snd (take 10 vc)"
    by (simp add: bars_def case_prod_unfold)
  have 1: "top10_states df = Inr (AnnotatedBar bars (map (\<lambda>p. int (snd p)) bars))"
    using top10_states_series [OF assms(1)] by (simp add: bars_def vc_def xs_def col_def)
  have 2: "length bars = 10" using len by (simp add: bars_def)
  have "distinct (map fst (take 10 vc))"
    using value_counts_distinct [of xs] by (simp add: vc_def take_map [symmetric] distinct_take)
  then have 3: "distinct (map fst bars)" unfolding fb by (simp add: distinct_map inj_on_def)
  have 4: "\<forall>p \<in> set bars. \<exists>s. fst p = Lab s \<and> s \<in> set col \<and> s \<noteq> NaN \<and> snd p = count_list col s"
  proof
    fix p assume "p \<in> set bars"
    then obtain q where q: "q \<in> set (take 10 vc)" "p = (Lab (fst q), snd q)"
      by (auto simp: bars_def)
    from q(1) have "q \<in> set vc" by (rule in_set_takeD)
    then obtain x where x: "x \<in> set xs" "q = (x, count_list xs x)" using vs by auto
    from x(1) have "x \<in> set col" "x \<noteq> NaN" using sx by auto
    then show "\<exists>s. fst p = Lab s \<and> s \<in> set col \<and> s \<noteq> NaN \<and> snd p = count_list col s"
      using q(2) x(2) cx by auto
  qed
  have "sorted_wrt (\<lambda>p q. snd q < snd p) (take 10 vc)"
    using strict by (rule sorted_wrt_take)
  then have 5: "sorted_wrt (\<lambda>m n. n < m) (map snd bars)"
    unfolding sb by (simp add: sorted_wrt_map)
  have 6: "\<forall>s \<in> set col - {NaN}. Lab s \<notin> fst ` set bars \<longrightarrow>
      (\<forall>p \<in> set bars. count_list col s < snd p)"
  proof (intro ballI impI)
    fix s p assume s: "s \<in> set col - {NaN}" and out: "Lab s \<notin> fst ` set bars"
      and p: "p \<in> set bars"
    from s have mem: "(s, count_list xs s) \<in> set vc" using vs sx by auto
    have "(s, count_list xs s) \<notin> set (take 10 vc)"
    proof
      assume "(s, count_list xs s) \<in> set (take 10 vc)"
      then have "(Lab s, count_list xs s) \<in> set bars" by (force simp: bars_def)
      then have "Lab s \<in> fst ` set bars" by force
      with out show False by simp
    qed
    with mem have d: "(s, count_list xs s) \<in> set (drop 10 vc)"
      by (metis Un_iff append_take_drop_id set_append)
    from p obtain q where q: "q \<in> set (take 10 vc)" "snd p = snd q"
      by (auto simp: bars_def)
    from sorted_wrt_take_drop [OF strict, of 10] q(1) d
    have "count_list xs s < snd q" by force
    then show "count_list col s < snd p" using q(2) cx s by auto
  qed
  from 1 2 3 4 5 6 show ?thesis unfolding col_def by blast
qed

lemma fifteen_top: "top10_states fifteen_states =
    Inr (AnnotatedBar top_bars [15, 14, 13, 12, 11, 10, 9, 8, 7, 6])"
  by code_simp

theorem top10_states_highest_witness:
  "length (rows fifteen_states) = 120 \<and>
   card (set (column fifteen_states ''statename'') - {NaN}) = 15 \<and>
   top10_states fifteen_states = Inr (AnnotatedBar top_bars [15, 14, 13, 12, 11, 10, 9, 8, 7, 6]) \<and>
   count_list (column fifteen_states ''statename'') (Str ''SE'') = 5 \<and>
   sorted_wrt (\<lambda>m n. n < m) (map snd top_bars)"
proof -
  have h1: "count_list (columns fifteen_states) ''statename'' = 1" by code_simp
  have c: "card (set (column fifteen_states ''statename'') - {NaN}) = 15" by code_simp
  then have h2: "10 \<le> card (set (column fifteen_states ''statename'') - {NaN})" by simp
  have n: "set (column fifteen_states ''statename'') - {NaN} =
      set (remdups (column fifteen_states ''statename''))" by code_simp
  have "distinct (map (count_list (column fifteen_states ''statename''))
      (remdups (column fifteen_states ''statename'')))" by code_simp
  then have h3: "inj_on (count_list (column fifteen_states ''statename''))
      (set (column fifteen_states ''statename'') - {NaN})"
    unfolding n by (simp add: distinct_map)
  from top10_states_highest [OF h1 h2 h3] obtain bars where
    b: "top10_states fifteen_states = Inr (AnnotatedBar bars (map (\<lambda>p. int (snd p)) bars))"
      "sorted_wrt (\<lambda>m n. n < m) (map snd bars)" by blast
  from b(1) have "bars = top_bars" by (simp add: fifteen_top)
  with b(2) have s: "sorted_wrt (\<lambda>m n. n < m) (map snd top_bars)" by simp
  have l: "length (rows fifteen_states) = 120" by code_simp
  have e: "count_list (column fifteen_states ''statename'') (Str ''SE'') = 5" by code_simp
  from l c s e show ?thesis by (simp add: fifteen_top)
qed


section \<open>What the stages leave alone\<close>

lemma keeps_table_and_then:
  "keeps_table f \<Longrightarrow> keeps_table g \<Longrightarrow> keeps_table (and_then f g)"
  unfolding keeps_table_def and_then_def
  by (auto split: prod.splits option.splits) (metis fst_conv snd_conv)+

lemma keeps_table_in_sequence:
  "(\<And>s. s \<in> set ss \<Longrightarrow> keeps_table s) \<Longrightarrow> keeps_table (in_sequence ss)"
proof (induction ss)
  case Nil
  show ?case by (simp add: keeps_table_def)
next
  case (Cons s ss)
  then show ?case by (simp add: keeps_table_and_then)
qed

lemma keeps_table_say: "keeps_table (say a)"
  by (simp add: keeps_table_def say_def)

lemma keeps_table_say_value: "keeps_table (say_value c v)"
  by (simp add: keeps_table_def say_value_def split: sum.splits)

lemma keeps_table_savefig: "keeps_table (savefig r n v)"
  by (simp add: keeps_table_def savefig_def split: sum.splits)

lemma keeps_table_to_excel: "keeps_table (to_excel n)"
  by (simp add: keeps_table_def to_excel_def)

lemma keeps_table_summary: "keeps_table generate_summary_stats"
  unfolding generate_summary_stats_def
  by (rule keeps_table_in_sequence) (auto simp: keeps_table_say keeps_table_say_value)

lemma keeps_table_visualizations: "keeps_table (create_visualizations render)"
  unfolding create_visualizations_def
  by (rule keeps_table_in_sequence) (auto simp: keeps_table_savefig)

lemma keeps_file_and_then:
  "keeps_file p f \<Longrightarrow> keeps_file p g \<Longrightarrow> keeps_file p (and_then f g)"
  unfolding keeps_file_def and_then_def
  by (auto split: prod.splits option.splits) (metis snd_conv)+

lemma keeps_file_in_sequence:
  "(\<And>s. s \<in> set ss \<Longrightarrow> keeps_file p s) \<Longrightarrow> keeps_file p (in_sequence ss)"
proof (induction ss)
  case Nil
  show ?case by (simp add: keeps_file_def)
next
  case (Cons s ss)
  then show ?case by (simp add: keeps_file_and_then)
qed

lemma keeps_file_say: "keeps_file p (say a)"
  by (simp add: keeps_file_def say_def)

lemma keeps_file_say_value: "keeps_file p (say_value c v)"
  by (simp add: keeps_file_def say_value_def split: sum.splits)

lemma keeps_file_savefig: "p \<noteq> n \<Longrightarrow> keeps_file p (savefig r n v)"
  by (simp add: keeps_file_def savefig_def write_file_def split: sum.splits)

lemma keeps_file_to_excel: "p \<noteq> n \<Longrightarrow> keeps_file p (to_excel n)"
  by (simp add: keeps_file_def to_excel_def write_file_def)

lemma keeps_file_summary: "keeps_file p generate_summary_stats"
  unfolding generate_summary_stats_def
  by (rule keeps_file_in_sequence) (auto simp: keeps_file_say keeps_file_say_value)

lemma keeps_file_visualizations:
  "p \<notin> set image_names \<Longrightarrow> keeps_file p (create_visualizations render)"
  unfolding create_visualizations_def
  by (rule keeps_file_in_sequence) (auto simp: image_names_def intro!: keeps_file_savefig)

lemma keeps_console_and_then:
  "keeps_console f \<Longrightarrow> keeps_console g \<Longrightarrow> keeps_console (and_then f g)"
  unfolding keeps_console_def and_then_def
  by (auto split: prod.splits option.splits) (metis snd_conv)+

lemma keeps_console_in_sequence:
  "(\<And>s. s \<in> set ss \<Longrightarrow> keeps_console s) \<Longrightarrow> keeps_console (in_sequence ss)"
proof (induction ss)
  case Nil
  show ?case by (simp add: keeps_console_def)
next
  case (Cons s ss)
  then show ?case by (simp add: keeps_console_and_then)
qed

lemma keeps_console_savefig: "keeps_console (savefig r n v)"
  by (simp add: keeps_console_def savefig_def write_file_def split: sum.splits)

lemma keeps_console_visualizations: "keeps_console (create_visualizations render)"
  unfolding create_visualizations_def
  by (rule keeps_console_in_sequence) (auto simp: keeps_console_savefig)


section \<open>Runs of the entry point\<close>

lemma try_load_cong: "fs p = fs' p \<Longrightarrow> try_load fs p = try_load fs' p"
  by (simp add: try_load_def read_excel_def)

lemma load_fst: "fst (load_and_clean_data p w) = (case try_load (files w) p of Inr d \<Rightarrow> Some d | Inl e \<Rightarrow> None)"
  by (simp add: load_and_clean_data_def split: sum.splits)

lemma summary_shape:
  "\<exists>r L. (\<forall>w. generate_summary_stats d w = (r, d, w\<lparr>console := console w @ L\<rparr>)) \<and>
     (r = None \<longrightarrow> length L = 5) \<and> length L \<le> 5"
proof -
  define a where "a = (case getitem d ''statename'' of Inl e \<Rightarrow> Inl e | Inr s \<Rightarrow> Inr (nunique s))"
  define b where "b = (case getitem d ''district'' of Inl e \<Rightarrow> Inl e | Inr s \<Rightarrow> Inr (nunique s))"
  define c where "c = (case getitem d ''officetype'' of Inl e \<Rightarrow> Inl e | Inr s \<Rightarrow> unique s)"
  have g: "generate_summary_stats = in_sequence
     [say [PStr (CHR 0x0A # ''=== BASIC SUMMARY ==='')],
      say_value ''Total Entries After Cleaning:'' (\<lambda>df. Inr (PInt (length (rows df)))),
      say_value ''Unique States:''
        (\<lambda>df. case getitem df ''statename'' of Inl e \<Rightarrow> Inl e | Inr s \<Rightarrow> Inr (nunique s)),
      say_value ''Unique Districts:''
        (\<lambda>df. case getitem df ''district'' of Inl e \<Rightarrow> Inl e | Inr s \<Rightarrow> Inr (nunique s)),
      say_value ''Unique Office Types:''
        (\<lambda>df. case getitem df ''officetype'' of Inl e \<Rightarrow> Inl e | Inr s \<Rightarrow> unique s)]"
    by (simp add: generate_summary_stats_def)
  show ?thesis
  proof (cases a)
    case (Inl e)
    show ?thesis
      apply (rule exI [of _ "Some e"])
      apply (rule exI [of _ "[[PStr (CHR 0x0A # ''=== BASIC SUMMARY ==='')],
         [PStr ''Total Entries After Cleaning:'', PInt (length (rows d))]]"])
      using Inl unfolding g a_def
      by (simp add: and_then_def say_def say_value_def print_def)
  next
    case A: (Inr x)
    show ?thesis
    proof (cases b)
      case (Inl e)
      show ?thesis
        apply (rule exI [of _ "Some e"])
        apply (rule exI [of _ "[[PStr (CHR 0x0A # ''=== BASIC SUMMARY ==='')],
           [PStr ''Total Entries After Cleaning:'', PInt (length (rows d))],
           [PStr ''Unique States:'', x]]"])
        using A Inl unfolding g a_def b_def
        by (simp add: and_then_def say_def say_value_def print_def)
    next
      case B: (Inr y)
      show ?thesis
      proof (cases c)
        case (Inl e)
        show ?thesis
          apply (rule exI [of _ "Some e"])
          apply (rule exI [of _ "[[PStr (CHR 0x0A # ''=== BASIC SUMMARY ==='')],
             [PStr ''Total Entries After Cleaning:'', PInt (length (rows d))],
             [PStr ''Unique States:'', x], [PStr ''Unique Districts:'', y]]"])
          using A B Inl unfolding g a_def b_def c_def
          by (simp add: and_then_def say_def say_value_def print_def)
      next
        case (Inr z)
        show ?thesis
          apply (rule exI [of _ "None"])
          apply (rule exI [of _ "[[PStr (CHR 0x0A # ''=== BASIC SUMMARY ==='')],
             [PStr ''Total Entries After Cleaning:'', PInt (length (rows d))],
             [PStr ''Unique States:'', x], [PStr ''Unique Districts:'', y],
             [PStr ''Unique Office Types:'', z]]"])
          using A B Inr unfolding g a_def b_def c_def
          by (simp add: and_then_def say_def say_value_def print_def)
      qed
    qed
  qed
qed

lemma main_loaded:
  assumes load: "try_load (files w) file_path = Inr d"
    and g: "\<forall>v. generate_summary_stats d v = (r, d, v\<lparr>console := console v @ L\<rparr>)"
  shows "main render w = (case r of
       Some e \<Rightarrow> (Some e, w\<lparr>console := console w @ banner # L\<rparr>)
     | None \<Rightarrow>
        (case create_visualizations render d
            (w\<lparr>console := console w @ banner # L @ [[PStr (CHR 0x0A # ''Creating visualizations...'')]]\<rparr>) of
           (Some e, d', w') \<Rightarrow> (Some e, w')
         | (None, d', w') \<Rightarrow>
             (None, w'\<lparr>files := (files w')(''cleaned_postal_dataset.xlsx'' \<mapsto> Workbook d'),
                       console := console w' @ closing\<rparr>)))"
proof -
  have l: "load_and_clean_data file_path
        (w\<lparr>console := console w @ [[PStr ''Loading and cleaning data...'']]\<rparr>) =
      (Some d, w\<lparr>console := console w @ [[PStr ''Loading and cleaning data...'']]\<rparr>)"
    using load by (simp add: load_and_clean_data_def)
  show ?thesis
    by (simp add: main_def l and_then_def g say_def to_excel_def print_def write_file_def
        banner_def closing_def split: option.splits prod.splits)
qed

lemma main_not_loaded:
  assumes "try_load (files w) file_path = Inl x"
  shows "main render w = (None, w\<lparr>console := console w @
      [banner, [PStr (''Error loading or cleaning data: '' @ str_exn x)],
       [PStr ''Failed to process data. Please check the input file and try again.'']]\<rparr>)"
proof -
  have "try_load (files (print [PStr ''Loading and cleaning data...''] w)) file_path = Inl x"
    using assms by simp
  then show ?thesis by (simp add: main_def load_and_clean_data_def print_def banner_def)
qed

lemma vis_result:
  "\<exists>r' w'. create_visualizations render d w = (r', d, w') \<and> console w' = console w \<and>
     (\<forall>p. p \<notin> set image_names \<longrightarrow> files w' p = files w p)"
proof -
  obtain r' d' w' where c: "create_visualizations render d w = (r', d', w')"
    by (metis prod_cases3)
  have "fst (snd (create_visualizations render d w)) = d"
    using keeps_table_visualizations [of render] by (simp add: keeps_table_def)
  then have "d' = d" by (simp add: c)
  moreover have "console (snd (snd (create_visualizations render d w))) = console w"
    using keeps_console_visualizations [of render] by (simp add: keeps_console_def)
  then have "console w' = console w" by (simp add: c)
  moreover have "\<And>p. p \<notin> set image_names \<Longrightarrow> files w' p = files w p"
  proof -
    fix p assume "p \<notin> set image_names"
    then have "files (snd (snd (create_visualizations render d w))) p = files w p"
      using keeps_file_visualizations [of p render] by (simp add: keeps_file_def)
    then show "files w' p = files w p" by (simp add: c)
  qed
  ultimately show ?thesis using c by blast
qed

lemma main_exports:
  assumes "try_load (files w) file_path = Inr d" and "fst (main render w) = None"
  shows "files (snd (main render w)) ''cleaned_postal_dataset.xlsx'' = Some (Workbook d)"
proof -
  from summary_shape [of d] obtain r L where
    g: "\<forall>v. generate_summary_stats d v = (r, d, v\<lparr>console := console v @ L\<rparr>)" by blast
  note m = main_loaded [OF assms(1) g, of render]
  show ?thesis
  proof (cases r)
    case (Some e)
    with m assms(2) show ?thesis by simp
  next
    case None
    let ?w3 = "w\<lparr>console := console w @ banner # L @
      [[PStr (CHR 0x0A # ''Creating visualizations...'')]]\<rparr>"
    from vis_result [of render d ?w3] obtain r' w' where
      v: "create_visualizations render d ?w3 = (r', d, w')" and
      c: "console w' = console ?w3" and
      f: "\<And>p. p \<notin> set image_names \<Longrightarrow> files w' p = files ?w3 p"
      by blast
    show ?thesis
    proof (cases r')
      case (Some e)
      with m None v assms(2) show ?thesis by simp
    next
      case N: None
      with m None v show ?thesis by simp
    qed
  qed
qed

lemma main_keeps_export:
  assumes "try_load (files w) file_path = Inr d" and "fst (main render w) \<noteq> None"
  shows "files (snd (main render w)) ''cleaned_postal_dataset.xlsx'' =
     files w ''cleaned_postal_dataset.xlsx''"
proof -
  from summary_shape [of d] obtain r L where
    g: "\<forall>v. generate_summary_stats d v = (r, d, v\<lparr>console := console v @ L\<rparr>)" by blast
  note m = main_loaded [OF assms(1) g, of render]
  show ?thesis
  proof (cases r)
    case (Some e)
    with m show ?thesis by simp
  next
    case None
    let ?w3 = "w\<lparr>console := console w @ banner # L @
      [[PStr (CHR 0x0A # ''Creating visualizations...'')]]\<rparr>"
    from vis_result [of render d ?w3] obtain r' w' where
      v: "create_visualizations render d ?w3 = (r', d, w')" and
      c: "console w' = console ?w3" and
      f: "\<And>p. p \<notin> set image_names \<Longrightarrow> files w' p = files ?w3 p"
      by blast
    have "files w' ''cleaned_postal_dataset.xlsx'' = files w ''cleaned_postal_dataset.xlsx''"
      using f [of "''cleaned_postal_dataset.xlsx''"] by (simp add: image_names_def)
    then show ?thesis using m None v assms(2) by (cases r') simp_all
  qed
qed

lemma main_keeps_input: "files (snd (main render w)) file_path = files w file_path"
proof (cases "try_load (files w) file_path")
  case (Inl x)
  then show ?thesis by (simp add: main_not_loaded)
next
  case (Inr d)
  from summary_shape [of d] obtain r L where
    g: "\<forall>v. generate_summary_stats d v = (r, d, v\<lparr>console := console v @ L\<rparr>)" by blast
  note m = main_loaded [OF Inr g, of render]
  show ?thesis
  proof (cases r)
    case (Some e)
    with m show ?thesis by simp
  next
    case None
    let ?w3 = "w\<lparr>console := console w @ banner # L @
      [[PStr (CHR 0x0A # ''Creating visualizations...'')]]\<rparr>"
    from vis_result [of render d ?w3] obtain r' w' where
      v: "create_visualizations render d ?w3 = (r', d, w')" and
      c: "console w' = console ?w3" and
      f: "\<And>p. p \<notin> set image_names \<Longrightarrow> files w' p = files ?w3 p"
      by blast
    have "files w' file_path = files w file_path"
      using f [of file_path] by (simp add: image_names_def file_path_def)
    then show ?thesis using m None v by (cases r') (simp_all add: file_path_def)
  qed
qed

lemma main_summary:
  assumes "try_load (files w) file_path = Inr d" and "console w = []"
    and g: "\<forall>v. generate_summary_stats d v = (r, d, v\<lparr>console := console v @ L\<rparr>)"
    and n: "r = None \<longrightarrow> length L = 5"
  shows "summarizer_output (snd (main render w)) = take 5 L"
proof -
  note m = main_loaded [OF assms(1) g, of render]
  show ?thesis
  proof (cases r)
    case (Some e)
    with m assms(2) show ?thesis by (simp add: summarizer_output_def)
  next
    case None
    let ?w3 = "w\<lparr>console := console w @ banner # L @
      [[PStr (CHR 0x0A # ''Creating visualizations...'')]]\<rparr>"
    from vis_result [of render d ?w3] obtain r' w' where
      v: "create_visualizations render d ?w3 = (r', d, w')" and
      c: "console w' = console ?w3" and
      f: "\<And>p. p \<notin> set image_names \<Longrightarrow> files w' p = files ?w3 p"
      by blast
    from n None have "length L = 5" by simp
    then show ?thesis using m None v c assms(2)
      by (cases r') (simp_all add: summarizer_output_def)
  qed
qed

text \<open>
  Claim C8.  The Summarizer, the Visualizer and the Exporter leave the cleaned table as
  they received it, and on a run that completes the exported spreadsheet holds the table
  that \<open>load_and_clean_data\<close> returned.
\<close>

theorem table_not_mutated:
  assumes "fst (load_and_clean_data file_path w) = Some d" and "fst (main render w) = None"
  shows "fst (snd (generate_summary_stats d v)) = d \<and>
     fst (snd (create_visualizations render d v)) = d \<and>
     fst (snd (to_excel name d v)) = d \<and>
     files (snd (main render w)) ''cleaned_postal_dataset.xlsx'' = Some (Workbook d)"
proof -
  from assms(1) have t: "try_load (files w) file_path = Inr d"
    by (simp add: load_fst split: sum.splits)
  have "fst (snd (generate_summary_stats d v)) = d"
    using keeps_table_summary by (simp add: keeps_table_def)
  moreover have "fst (snd (create_visualizations render d v)) = d"
    using keeps_table_visualizations [of render] by (simp add: keeps_table_def)
  moreover have "fst (snd (to_excel name d v)) = d"
    by (simp add: to_excel_def)
  ultimately show ?thesis using main_exports [OF t assms(2)] by simp
qed

lemma sample_run1: "fst (main (\<lambda>ch. Inr [7]) (on_disk sample)) = None"
  by code_simp

lemma sample_export1: "exported_row_count (snd (main (\<lambda>ch. Inr [7]) (on_disk sample))) = Some 2"
  by code_simp

lemma sample_summary1: "summarizer_output (snd (main (\<lambda>ch. Inr [7]) (on_disk sample))) =
    [[PStr (CHR 0x0A # ''=== BASIC SUMMARY ==='')],
     [PStr ''Total Entries After Cleaning:'', PInt 2],
     [PStr ''Unique States:'', PInt 1],
     [PStr ''Unique Districts:'', PInt 1],
     [PStr ''Unique Office Types:'', PArr [Str ''BO'']]]"
  by code_simp

theorem table_not_mutated_witness:
  "fst (load_and_clean_data file_path (on_disk sample)) = Some sample_cleaned \<and>
   fst (main (\<lambda>ch. Inr [7]) (on_disk sample)) = None \<and>
   files (snd (main (\<lambda>ch. Inr [7]) (on_disk sample))) ''cleaned_postal_dataset.xlsx'' =
     Some (Workbook sample_cleaned)"
proof -
  have l: "fst (load_and_clean_data file_path (on_disk sample)) = Some sample_cleaned"
    by (simp add: load_on_disk [OF clean_sample])
  from table_not_mutated [OF l sample_run1] l sample_run1 show ?thesis by simp
qed

text \<open>
  Claim C9.  Run the pipeline twice, the second time on the files the first run left,
  with plotting libraries that may produce different images: both runs print the same
  Summarizer lines, and when the first run ends without an exception the exported
  spreadsheet has the same number of rows after both.
\<close>

theorem rerun_same_data:
  assumes "main r1 \<lparr>console = [], files = fs\<rparr> = (e1, w1)"
    and "main r2 \<lparr>console = [], files = files w1\<rparr> = (e2, w2)"
  shows "summarizer_output w2 = summarizer_output w1 \<and>
     (e1 = None \<longrightarrow> exported_row_count w2 = exported_row_count w1)"
proof -
  let ?a = "\<lparr>console = [], files = fs\<rparr>" and ?b = "\<lparr>console = [], files = files w1\<rparr>"
  have w1: "w1 = snd (main r1 ?a)" and e1: "e1 = fst (main r1 ?a)" using assms(1) by simp_all
  have w2: "w2 = snd (main r2 ?b)" and e2: "e2 = fst (main r2 ?b)" using assms(2) by simp_all
  have "files w1 file_path = fs file_path"
    using main_keeps_input [of r1 ?a] by (simp add: w1)
  then have "files ?b file_path = files ?a file_path" by simp
  then have same: "try_load (files ?b) file_path = try_load (files ?a) file_path"
    by (rule try_load_cong)
  show ?thesis
  proof (cases "try_load (files ?a) file_path")
    case (Inl x)
    with same have x: "try_load (files ?b) file_path = Inl x" by simp
    have "console w1 = console w2 \<and> files w2 = files w1"
      using main_not_loaded [OF Inl, of r1] main_not_loaded [OF x, of r2] assms by auto
    then show ?thesis by (simp add: summarizer_output_def exported_row_count_def)
  next
    case (Inr d)
    with same have y: "try_load (files ?b) file_path = Inr d" by simp
    from summary_shape [of d] obtain r L where
      g: "\<forall>v. generate_summary_stats d v = (r, d, v\<lparr>console := console v @ L\<rparr>)"
      and n: "r = None \<longrightarrow> length L = 5" by blast
    have "summarizer_output (snd (main r1 ?a)) = take 5 L"
      using main_summary [OF Inr _ g n, of r1] by simp
    moreover have "summarizer_output (snd (main r2 ?b)) = take 5 L"
      using main_summary [OF y _ g n, of r2] by simp
    ultimately have s: "summarizer_output w2 = summarizer_output w1"
      using assms by simp
    have x: "e1 = None \<longrightarrow> exported_row_count w2 = exported_row_count w1"
    proof
      assume "e1 = None"
      then have "fst (main r1 ?a) = None" by (simp add: e1)
      from main_exports [OF Inr this]
      have f1: "files w1 ''cleaned_postal_dataset.xlsx'' = Some (Workbook d)" by (simp add: w1)
      have "files w2 ''cleaned_postal_dataset.xlsx'' = Some (Workbook d)"
      proof (cases "fst (main r2 ?b) = None")
        case True
        from main_exports [OF y True] show ?thesis by (simp add: w2)
      next
        case False
        from main_keeps_export [OF y False] f1 show ?thesis by (simp add: w2)
      qed
      with f1 show "exported_row_count w2 = exported_row_count w1"
        by (simp add: exported_row_count_def)
    qed
    from s x show ?thesis by simp
  qed
qed

theorem rerun_same_data_witness:
  "summarizer_output (snd (main (\<lambda>ch. Inr [2])
      \<lparr>console = [], files = files (snd (main (\<lambda>ch. Inr [7]) (on_disk sample)))\<rparr>)) =
     [[PStr (CHR 0x0A # ''=== BASIC SUMMARY ==='')],
      [PStr ''Total Entries After Cleaning:'', PInt 2],
      [PStr ''Unique States:'', PInt 1],
      [PStr ''Unique Districts:'', PInt 1],
      [PStr ''Unique Office Types:'', PArr [Str ''BO'']]] \<and>
   exported_row_count (snd (main (\<lambda>ch. Inr [2])
      \<lparr>console = [], files = files (snd (main (\<lambda>ch. Inr [7]) (on_disk sample)))\<rparr>)) = Some 2"
proof -
  let ?w1 = "snd (main (\<lambda>ch. Inr [7]) (on_disk sample))"
  let ?r2 = "main (\<lambda>ch. Inr [2]) \<lparr>console = [], files = files ?w1\<rparr>"
  have a: "main (\<lambda>ch. Inr [7]) \<lparr>console = [], files = [file_path \<mapsto> Workbook sample]\<rparr> =
      (None, ?w1)"
    using sample_run1 by (simp add: on_disk_def prod_eq_iff)
  have b: "?r2 = (fst ?r2, snd ?r2)" by simp
  from rerun_same_data [OF a b] show ?thesis
    by (simp add: sample_summary1 sample_export1)
qed

end
